theory Spec2Isabelle
  imports Main "HOL-Library.AList" "HOL-Library.Sublist" "HOL-Library.Char_ord"
    "HOL-Library.List_Lexorder"
begin

section \<open>Data model of the bake resolver\<close>

text \<open>
  A Go \<open>[]string\<close> is modelled by the sequence it holds, with \<open>None\<close> for the nil
  slice, since \<open>Merge\<close> tests slices against nil.  A Go \<open>*string\<close> or \<open>*bool\<close> is an
  option.  A Go map that the code ranges over is an association list with distinct keys;
  the order of the list stands for the iteration order, which Go leaves unspecified.
\<close>

type_synonym strs = "string list option"

definition elems :: "strs \<Rightarrow> string list" where
  "elems s = (case s of None \<Rightarrow> [] | Some xs \<Rightarrow> xs)"

record Override =
  Value :: string
  ArrValue :: strs

record Group =
  Name :: string
  Description :: string
  Targets :: strs

record Target =
  Name :: string
  Description :: string
  Inherits :: strs
  Annotations :: strs
  Attest :: strs
  Context :: "string option"
  Contexts :: "(string \<times> string) list option"
  Dockerfile :: "string option"
  DockerfileInline :: "string option"
  Args :: "(string \<times> string option) list option"
  Labels :: "(string \<times> string option) list option"
  Tags :: strs
  CacheFrom :: strs
  CacheTo :: strs
  Target :: "string option"
  Secrets :: strs
  SSH :: strs
  Platforms :: strs
  Outputs :: strs
  Pull :: "bool option"
  NoCache :: "bool option"
  NetworkMode :: "string option"
  NoCacheFilter :: strs
  ShmSize :: "string option"
  Ulimits :: strs
  Call :: "string option"
  Entitlements :: strs
  linked :: bool

record Config =
  Groups :: "Group list"
  Targets :: "Target list"

text \<open>The errors of the resolver, one constructor for each \<open>errors.Errorf\<close> or
  \<open>errors.Wrap\<close> of the source, and the message each one prints.\<close>

datatype error =
  CouldNotMatch string string
  | NoTargetMatching string
  | FailedToFindTarget string
  | CannotLinkToItself string
  | InfiniteLoop string string
  | DifferentPlatforms string string "string list" "string list"
  | InvalidOverrideKey string
  | InvalidOverride string
  | ArgsRequiresName string
  | ContextsRequiresName string
  | InvalidArgsFormat
  | InvalidContextsFormat
  | InvalidLabelsFormat
  | InvalidBoolean string string
  | UnknownKey string
  | External string
  | InvalidOutputs string
  | NilDereference

text \<open>The libraries the resolver calls and that are not part of the repository are
  parameters of the model: \<open>path.Match\<close>, \<open>os.LookupEnv\<close>, the parsers of package
  \<open>buildflags\<close> (each reduced to the fields the resolver reads from its result: the type of
  an attestation, the type and attributes of a cache entry, the file path of a secret, the
  paths of an ssh spec, the destination of an export), \<open>csvvalue.Fields\<close>, and the two
  entitlement keys, which are declared in a file of the package that is not at hand.  A
  failing call returns its message under \<open>Inl\<close>.\<close>

record ext =
  Match :: "string \<Rightarrow> string \<Rightarrow> string + bool"
  LookupEnv :: "string \<Rightarrow> string option"
  ParseAttest :: "string \<Rightarrow> string + string"
  ParseCacheEntry :: "string list \<Rightarrow> string + (string \<times> (string \<times> string) list) list"
  ParseSecretSpecs :: "string list \<Rightarrow> string + string list"
  ParseSSHSpecs :: "string list \<Rightarrow> string + string list list"
  ParseExports :: "string list \<Rightarrow> string + string list"
  Fields :: "string \<Rightarrow> string + string list"
  EntitlementKeyNetworkHost :: string
  EntitlementKeySecurityInsecure :: string

section \<open>Override patterns\<close>

text \<open>\<open>Config.expandTargets\<close>: the first loop returns at an exact name; the second
  matches the pattern against every target name with \<open>path.Match\<close>.\<close>

fun matchTargets :: "ext \<Rightarrow> string \<Rightarrow> Target list \<Rightarrow> string list \<Rightarrow> error + string list" where
  "matchTargets x pattern [] names = Inr names"
| "matchTargets x pattern (target # ts) names =
     (case Match x pattern (Target.Name target) of
        Inl err \<Rightarrow> Inl (CouldNotMatch pattern err)
      | Inr ok \<Rightarrow> matchTargets x pattern ts (if ok then names @ [Target.Name target] else names))"

definition expandTargets :: "ext \<Rightarrow> Config \<Rightarrow> string \<Rightarrow> error + string list" where
  "expandTargets x c pattern =
     (if \<exists>target \<in> set (Targets c). Target.Name target = pattern then Inr [pattern]
      else case matchTargets x pattern (Targets c) [] of
             Inl e \<Rightarrow> Inl e
           | Inr names \<Rightarrow> if length names = 0 then Inl (NoTargetMatching pattern) else Inr names)"


section \<open>Merging targets\<close>

text \<open>\<open>defaultTarget\<close> returns \<open>&Target{}\<close>, the zero value of the struct.\<close>

definition defaultTarget :: Target where
  "defaultTarget = \<lparr> Target.Name = [], Description = [], Inherits = None, Annotations = None,
     Attest = None, Context = None, Contexts = None, Dockerfile = None,
     DockerfileInline = None, Args = None, Labels = None, Tags = None, CacheFrom = None,
     CacheTo = None, Target = None, Secrets = None, SSH = None, Platforms = None,
     Outputs = None, Pull = None, NoCache = None, NetworkMode = None, NoCacheFilter = None,
     ShmSize = None, Ulimits = None, Call = None, Entitlements = None, linked = False \<rparr>"

section \<open>Example documents\<close>

text \<open>Stand-ins for the external libraries, used where a property is evaluated on a
  concrete document: the pattern \<open>*\<close> matches every name, every other pattern matches
  itself only; the parsers accept everything and find nothing.\<close>

definition ext0 :: ext where
  "ext0 = \<lparr> Match = (\<lambda>pattern name. Inr (pattern = ''*'' \<or> pattern = name)),
     LookupEnv = (\<lambda>k. None),
     ParseAttest = (\<lambda>v. Inr v),
     ParseCacheEntry = (\<lambda>vs. Inr []),
     ParseSecretSpecs = (\<lambda>vs. Inr []),
     ParseSSHSpecs = (\<lambda>vs. Inr []),
     ParseExports = (\<lambda>vs. Inr []),
     Fields = (\<lambda>s. Inr [s]),
     EntitlementKeyNetworkHost = ''network.host'',
     EntitlementKeySecurityInsecure = ''security.insecure'' \<rparr>"

definition named :: "string \<Rightarrow> Target" where
  "named n = defaultTarget \<lparr> Target.Name := n \<rparr>"


section \<open>Group expansion\<close>

text \<open>\<open>dedupSlice\<close> keeps the first occurrence of every value.\<close>

fun dedupSlice_loop :: "string list \<Rightarrow> string list \<Rightarrow> string list" where
  "dedupSlice_loop [] res = res"
| "dedupSlice_loop (val # s) res =
     dedupSlice_loop s (if val \<in> set res then res else res @ [val])"

definition dedupSlice :: "string list \<Rightarrow> string list" where
  "dedupSlice s = (if length s = 0 then s else dedupSlice_loop s [])"

text \<open>
  \<open>Config.group\<close> recurses through the members of a group and threads the \<open>visited\<close>
  map through the loop.  The two slices of a \<open>visit\<close> are only ranged over and measured
  with \<open>len\<close>, so a nil slice and an empty one are the same list here.  The recursion is
  on a fuel counter that bounds the depth of nested calls; \<open>None\<close> means the fuel ran out.
\<close>

type_synonym visit = "string list \<times> string list"

fun group :: "nat \<Rightarrow> Config \<Rightarrow> string \<Rightarrow> (string \<rightharpoonup> visit) \<Rightarrow> (visit \<times> (string \<rightharpoonup> visit)) option"
  and group_members :: "nat \<Rightarrow> Config \<Rightarrow> string list \<Rightarrow> string list \<Rightarrow> string list \<Rightarrow>
    (string \<rightharpoonup> visit) \<Rightarrow> (visit \<times> (string \<rightharpoonup> visit)) option" where
  "group 0 c name visited = None"
| "group (Suc n) c name visited =
     (case visited name of
        Some v \<Rightarrow> Some (v, visited)
      | None \<Rightarrow>
         (case find (\<lambda>g. Group.Name g = name) (Groups c) of
            None \<Rightarrow> Some (([name], []), visited)
          | Some g \<Rightarrow>
             (case group_members n c (elems (Group.Targets g)) [] [name]
                     (visited(name \<mapsto> ([], []))) of
                None \<Rightarrow> None
              | Some ((targets, groups), visited') \<Rightarrow>
                  Some ((targets, groups), visited'(name \<mapsto> (targets, groups))))))"
| "group_members n c [] targets groups visited = Some ((targets, groups), visited)"
| "group_members n c (t # ts) targets groups visited =
     (case group n c t visited of
        None \<Rightarrow> None
      | Some ((ttarget, tgroup), visited') \<Rightarrow>
          group_members n c ts
            (if length ttarget > 0 then targets @ ttarget else targets @ [t])
            (if length tgroup > 0 then groups @ tgroup else groups)
            visited')"

text \<open>\<open>Config.ResolveGroup\<close> starts from an empty \<open>visited\<close> map.  One more unit of
  fuel than there are groups is enough (\<open>group_fuel\<close> below), so \<open>None\<close> is never
  returned.\<close>

definition ResolveGroup :: "Config \<Rightarrow> string \<Rightarrow> (string list \<times> string list) option" where
  "ResolveGroup c name =
     (case group (Suc (length (Groups c))) c name Map.empty of
        None \<Rightarrow> None
      | Some ((targets, groups), visited) \<Rightarrow> Some (dedupSlice targets, dedupSlice groups))"

definition grp :: "string \<Rightarrow> string list \<Rightarrow> Group" where
  "grp n ts = \<lparr> Group.Name = n, Description = [], Targets = Some ts \<rparr>"

definition c_cycle :: Config where
  "c_cycle = \<lparr> Groups = [grp ''G'' [''H'', ''app''], grp ''H'' [''G'']],
               Targets = [named ''app''] \<rparr>"

section \<open>Strings and slices\<close>

text \<open>\<open>strings.SplitN\<close> for a separator of one character: at most \<open>n\<close> pieces, the last
  one holding the unsplit rest.\<close>

fun SplitN :: "string \<Rightarrow> char \<Rightarrow> nat \<Rightarrow> string list" where
  "SplitN s sep 0 = []"
| "SplitN s sep (Suc 0) = [s]"
| "SplitN s sep (Suc (Suc n)) =
     (if sep \<in> set s
      then takeWhile (\<lambda>ch. ch \<noteq> sep) s # SplitN (tl (dropWhile (\<lambda>ch. ch \<noteq> sep) s)) sep (Suc n)
      else [s])"

text \<open>\<open>strconv.ParseBool\<close>.\<close>

definition ParseBool :: "string \<Rightarrow> bool option" where
  "ParseBool str =
     (if str \<in> set [''1'', ''t'', ''T'', ''TRUE'', ''true'', ''True''] then Some True
      else if str \<in> set [''0'', ''f'', ''F'', ''FALSE'', ''false'', ''False''] then Some False
      else None)"

text \<open>\<open>append(s, xs...)\<close> returns \<open>s\<close> itself, nil included, when there is nothing to add.\<close>

definition append :: "strs \<Rightarrow> string list \<Rightarrow> strs" where
  "append s xs = (if xs = [] then s else Some (elems s @ xs))"

text \<open>\<open>removeDupes\<close> keeps the first occurrence of every non-empty value; \<open>res\<close> is the
  compacted prefix \<open>s[:i]\<close> and doubles as the \<open>seen\<close> set.  The nil slice stays nil.\<close>

fun removeDupes_loop :: "string list \<Rightarrow> string list \<Rightarrow> string list" where
  "removeDupes_loop [] res = res"
| "removeDupes_loop (v # s) res =
     (if v \<in> set res then removeDupes_loop s res
      else if v = [] then removeDupes_loop s res
      else removeDupes_loop s (res @ [v]))"

definition removeDupes :: "strs \<Rightarrow> strs" where
  "removeDupes s = (case s of None \<Rightarrow> None | Some xs \<Rightarrow> Some (removeDupes_loop xs []))"

text \<open>\<open>removeAttestDupes\<close>: a later attestation of a type seen before replaces the earlier
  one in place; a value that does not parse is kept.  The result is never nil.\<close>

fun removeAttestDupes_loop :: "ext \<Rightarrow> string list \<Rightarrow> string list \<Rightarrow> (string \<rightharpoonup> nat) \<Rightarrow> string list" where
  "removeAttestDupes_loop x [] res m = res"
| "removeAttestDupes_loop x (v # s) res m =
     (case ParseAttest x v of
        Inl err \<Rightarrow> removeAttestDupes_loop x s (res @ [v]) m
      | Inr ty \<Rightarrow>
         (case m ty of
            Some i \<Rightarrow> removeAttestDupes_loop x s (res[i := v]) m
          | None \<Rightarrow> removeAttestDupes_loop x s (res @ [v]) (m(ty \<mapsto> length res))))"

definition removeAttestDupes :: "ext \<Rightarrow> strs \<Rightarrow> strs" where
  "removeAttestDupes x s = Some (removeAttestDupes_loop x (elems s) [] Map.empty)"

text \<open>The map loops of \<open>Merge\<close>: every entry of the source map is stored in the
  destination map, which is created at the first store; for \<open>Args\<close> and \<open>Labels\<close> an entry
  with a nil value is skipped.\<close>

definition entries :: "('k \<times> 'v) list option \<Rightarrow> ('k \<times> 'v) list" where
  "entries m = (case m of None \<Rightarrow> [] | Some kvs \<Rightarrow> kvs)"

fun mergeContexts :: "(string \<times> string) list option \<Rightarrow> (string \<times> string) list \<Rightarrow>
    (string \<times> string) list option" where
  "mergeContexts d [] = d"
| "mergeContexts d ((k, v) # kvs) = mergeContexts (Some (AList.update k v (entries d))) kvs"

fun mergeArgs :: "(string \<times> string option) list option \<Rightarrow> (string \<times> string option) list \<Rightarrow>
    (string \<times> string option) list option" where
  "mergeArgs d [] = d"
| "mergeArgs d ((k, v) # kvs) =
     (if v = None then mergeArgs d kvs
      else mergeArgs (Some (AList.update k v (entries d))) kvs)"

text \<open>\<open>Target.Merge\<close>.  Every statement of the source reads and writes one field, so
  the sequence of statements is one simultaneous update.\<close>

definition Merge :: "ext \<Rightarrow> Target \<Rightarrow> Target \<Rightarrow> Target" where
  "Merge x t t2 = t \<lparr>
     Context := (if Context t2 \<noteq> None then Context t2 else Context t),
     Dockerfile := (if Dockerfile t2 \<noteq> None then Dockerfile t2 else Dockerfile t),
     DockerfileInline :=
       (if DockerfileInline t2 \<noteq> None then DockerfileInline t2 else DockerfileInline t),
     Args := mergeArgs (Args t) (entries (Args t2)),
     Contexts := mergeContexts (Contexts t) (entries (Contexts t2)),
     Labels := mergeArgs (Labels t) (entries (Labels t2)),
     Tags := (if Tags t2 \<noteq> None then Tags t2 else Tags t),
     Target := (if Target t2 \<noteq> None then Target t2 else Target t),
     Call := (if Call t2 \<noteq> None then Call t2 else Call t),
     Annotations :=
       (if Annotations t2 \<noteq> None then append (Annotations t) (elems (Annotations t2))
        else Annotations t),
     Attest :=
       (if Attest t2 \<noteq> None then removeAttestDupes x (append (Attest t) (elems (Attest t2)))
        else Attest t),
     Secrets :=
       (if Secrets t2 \<noteq> None then append (Secrets t) (elems (Secrets t2)) else Secrets t),
     SSH := (if SSH t2 \<noteq> None then append (SSH t) (elems (SSH t2)) else SSH t),
     Platforms := (if Platforms t2 \<noteq> None then Platforms t2 else Platforms t),
     CacheFrom :=
       (if CacheFrom t2 \<noteq> None then append (CacheFrom t) (elems (CacheFrom t2))
        else CacheFrom t),
     CacheTo := (if CacheTo t2 \<noteq> None then CacheTo t2 else CacheTo t),
     Outputs := (if Outputs t2 \<noteq> None then Outputs t2 else Outputs t),
     Pull := (if Pull t2 \<noteq> None then Pull t2 else Pull t),
     NoCache := (if NoCache t2 \<noteq> None then NoCache t2 else NoCache t),
     NetworkMode := (if NetworkMode t2 \<noteq> None then NetworkMode t2 else NetworkMode t),
     NoCacheFilter :=
       (if NoCacheFilter t2 \<noteq> None then append (NoCacheFilter t) (elems (NoCacheFilter t2))
        else NoCacheFilter t),
     ShmSize := (if ShmSize t2 \<noteq> None then ShmSize t2 else ShmSize t),
     Ulimits :=
       (if Ulimits t2 \<noteq> None then append (Ulimits t) (elems (Ulimits t2)) else Ulimits t),
     Description :=
       (if Target.Description t2 \<noteq> [] then Target.Description t2 else Target.Description t),
     Entitlements :=
       (if Entitlements t2 \<noteq> None then append (Entitlements t) (elems (Entitlements t2))
        else Entitlements t),
     Inherits := append (Inherits t) (elems (Inherits t2)) \<rparr>"

text \<open>\<open>Target.normalize\<close>.\<close>

definition normalize :: "ext \<Rightarrow> Target \<Rightarrow> Target" where
  "normalize x t = t \<lparr>
     Annotations := removeDupes (Annotations t),
     Attest := removeAttestDupes x (Attest t),
     Tags := removeDupes (Tags t),
     Secrets := removeDupes (Secrets t),
     SSH := removeDupes (SSH t),
     Platforms := removeDupes (Platforms t),
     CacheFrom := removeDupes (CacheFrom t),
     CacheTo := removeDupes (CacheTo t),
     Outputs := removeDupes (Outputs t),
     NoCacheFilter := removeDupes (NoCacheFilter t),
     Ulimits := removeDupes (Ulimits t),
     Entitlements :=
       removeDupes (if NetworkMode t = Some ''host''
                    then append (Entitlements t) [''network.host'']
                    else Entitlements t),
     Contexts :=
       (let m = filter (\<lambda>(k, v). v \<noteq> []) (entries (Contexts t))
        in if length m = 0 then None else Some m) \<rparr>"

section \<open>Overrides\<close>

record EntitlementConf =
  NetworkHost :: bool
  SecurityInsecure :: bool
  FSRead :: "string list"
  FSWrite :: "string list"

text \<open>\<open>parseOutput\<close> and \<open>parseOutputType\<close>.\<close>

fun parseOutput_loop :: "string list \<Rightarrow> (string \<times> string) list \<Rightarrow> (string \<times> string) list" where
  "parseOutput_loop [] res = res"
| "parseOutput_loop (field # flds) res =
     (let parts = SplitN field (CHR ''='') 2
      in parseOutput_loop flds
           (if length parts = 2 then AList.update (parts ! 0) (parts ! 1) res else res))"

definition parseOutput :: "ext \<Rightarrow> string \<Rightarrow> (string \<times> string) list option" where
  "parseOutput x str =
     (case Fields x str of Inl err \<Rightarrow> None | Inr flds \<Rightarrow> Some (parseOutput_loop flds []))"

definition parseOutputType :: "ext \<Rightarrow> string \<Rightarrow> string" where
  "parseOutputType x str =
     (case parseOutput x str of
        None \<Rightarrow> []
      | Some out \<Rightarrow> (case map_of out ''type'' of Some v \<Rightarrow> v | None \<Rightarrow> []))"

text \<open>\<open>setPushOverride\<close>: the loop carries \<open>out\<close> and \<open>setPush\<close>; \<open>out\<close> starts as a nil
  slice and stays nil when nothing is appended.\<close>

fun setPushOverride_loop :: "ext \<Rightarrow> bool \<Rightarrow> string list \<Rightarrow> string list \<Rightarrow> bool \<Rightarrow> string list \<times> bool" where
  "setPushOverride_loop x push [] out setPush = (out, setPush)"
| "setPushOverride_loop x push (output # outputs) out setPush =
     (let typ = parseOutputType x output in
      if typ = ''image'' \<or> typ = ''registry'' then
        (if typ = ''registry'' then
           (if \<not> push then setPushOverride_loop x push outputs out False
            else setPushOverride_loop x push outputs (out @ [output]) False)
         else setPushOverride_loop x push outputs
                (out @ [output @ '',push='' @ (if push then ''true'' else ''false'')]) False)
      else setPushOverride_loop x push outputs (out @ [output])
             (if typ \<noteq> ''docker'' then False else setPush))"

definition setPushOverride :: "ext \<Rightarrow> strs \<Rightarrow> bool \<Rightarrow> strs" where
  "setPushOverride x outputs push =
     (case setPushOverride_loop x push (elems outputs) [] True of
        (out, setPush) \<Rightarrow>
          (let out' = (if push \<and> setPush then out @ [''type=image,push=true''] else out)
           in if out' = [] then None else Some out'))"

text \<open>\<open>setLoadOverride\<close>: the loop leaves with \<open>setLoad = false\<close> at the first output
  that rules the load out.\<close>

fun setLoad :: "ext \<Rightarrow> string list \<Rightarrow> bool" where
  "setLoad x [] = True"
| "setLoad x (output # outputs) =
     (let typ = parseOutputType x output in
      if typ = ''docker'' then
        (case parseOutput x output of
           None \<Rightarrow> setLoad x outputs
         | Some v \<Rightarrow> (if map_of v ''dest'' = None then False else setLoad x outputs))
      else if typ \<noteq> ''image'' \<and> typ \<noteq> ''registry'' \<and> typ \<noteq> ''oci'' then False
      else setLoad x outputs)"

definition setLoadOverride :: "ext \<Rightarrow> strs \<Rightarrow> bool \<Rightarrow> strs" where
  "setLoadOverride x outputs load =
     (if \<not> load then outputs
      else if setLoad x (elems outputs) then append outputs [''type=docker'']
      else outputs)"

text \<open>\<open>Target.AddOverrides\<close>.  \<open>addOverride\<close> is the body of the loop, one branch for
  each case of the switch; \<open>AddOverrides\<close> ranges over the override map of the target in
  the order of the list.  After an error the callers return at once, so the target and the
  entitlements written so far are not returned.\<close>

definition localAttrs :: "string \<Rightarrow> (string \<times> (string \<times> string) list) list \<Rightarrow> string list" where
  "localAttrs k cs =
     concat (map (\<lambda>(ty, attrs). if ty = ''local''
                    then (case map_of attrs k of Some v \<Rightarrow> [v] | None \<Rightarrow> []) else []) cs)"

definition setEntitlementFlags :: "ext \<Rightarrow> string list \<Rightarrow> EntitlementConf \<Rightarrow> EntitlementConf" where
  "setEntitlementFlags x vs ent =
     fold (\<lambda>v e. if v = EntitlementKeyNetworkHost x then e \<lparr> NetworkHost := True \<rparr>
                 else if v = EntitlementKeySecurityInsecure x then e \<lparr> SecurityInsecure := True \<rparr>
                 else e) vs ent"

definition addOverride :: "ext \<Rightarrow> string \<Rightarrow> Override \<Rightarrow> Target \<Rightarrow> EntitlementConf \<Rightarrow>
    error + Target \<times> EntitlementConf" where
  "addOverride x key ov t ent =
     (let value = Value ov; keys = SplitN key (CHR ''.'') 2; k = hd keys in
      if k = ''context'' then Inr (t \<lparr> Context := Some value \<rparr>, ent)
      else if k = ''dockerfile'' then Inr (t \<lparr> Dockerfile := Some value \<rparr>, ent)
      else if k = ''args'' then
        (if length keys \<noteq> 2 then Inl InvalidArgsFormat
         else Inr (t \<lparr> Args := Some (AList.update (keys ! 1) (Some value) (entries (Args t))) \<rparr>, ent))
      else if k = ''contexts'' then
        (if length keys \<noteq> 2 then Inl InvalidContextsFormat
         else Inr (t \<lparr> Contexts := Some (AList.update (keys ! 1) value (entries (Contexts t))) \<rparr>, ent))
      else if k = ''labels'' then
        (if length keys \<noteq> 2 then Inl InvalidLabelsFormat
         else Inr (t \<lparr> Labels := Some (AList.update (keys ! 1) (Some value) (entries (Labels t))) \<rparr>, ent))
      else if k = ''tags'' then Inr (t \<lparr> Tags := ArrValue ov \<rparr>, ent)
      else if k = ''cache-from'' then
        (case ParseCacheEntry x (elems (ArrValue ov)) of
           Inl err \<Rightarrow> Inl (External err)
         | Inr cacheFrom \<Rightarrow>
             Inr (t \<lparr> CacheFrom := ArrValue ov \<rparr>,
                  ent \<lparr> FSRead := FSRead ent @ localAttrs ''src'' cacheFrom \<rparr>))
      else if k = ''cache-to'' then
        (case ParseCacheEntry x (elems (ArrValue ov)) of
           Inl err \<Rightarrow> Inl (External err)
         | Inr cacheTo \<Rightarrow>
             Inr (t \<lparr> CacheTo := ArrValue ov \<rparr>,
                  ent \<lparr> FSWrite := FSWrite ent @ localAttrs ''dest'' cacheTo \<rparr>))
      else if k = ''target'' then Inr (t \<lparr> Target := Some value \<rparr>, ent)
      else if k = ''call'' then Inr (t \<lparr> Call := Some value \<rparr>, ent)
      else if k = ''secrets'' then
        (case ParseSecretSpecs x (elems (ArrValue ov)) of
           Inl err \<Rightarrow> Inl (InvalidOutputs err)
         | Inr secrets \<Rightarrow>
             Inr (t \<lparr> Secrets := ArrValue ov \<rparr>,
                  ent \<lparr> FSRead := FSRead ent @ filter (\<lambda>p. p \<noteq> []) secrets \<rparr>))
      else if k = ''ssh'' then
        (case ParseSSHSpecs x (elems (ArrValue ov)) of
           Inl err \<Rightarrow> Inl (InvalidOutputs err)
         | Inr ssh \<Rightarrow>
             Inr (t \<lparr> SSH := ArrValue ov \<rparr>, ent \<lparr> FSRead := FSRead ent @ concat ssh \<rparr>))
      else if k = ''platform'' then Inr (t \<lparr> Platforms := ArrValue ov \<rparr>, ent)
      else if k = ''output'' then
        (case ParseExports x (elems (ArrValue ov)) of
           Inl err \<Rightarrow> Inl (InvalidOutputs err)
         | Inr outputs \<Rightarrow>
             Inr (t \<lparr> Outputs := ArrValue ov \<rparr>,
                  ent \<lparr> FSWrite := FSWrite ent @ filter (\<lambda>d. d \<noteq> []) outputs \<rparr>))
      else if k = ''entitlements'' then
        Inr (t \<lparr> Entitlements := append (Entitlements t) (elems (ArrValue ov)) \<rparr>,
             setEntitlementFlags x (elems (ArrValue ov)) ent)
      else if k = ''annotations'' then
        Inr (t \<lparr> Annotations := append (Annotations t) (elems (ArrValue ov)) \<rparr>, ent)
      else if k = ''attest'' then
        Inr (t \<lparr> Attest := append (Attest t) (elems (ArrValue ov)) \<rparr>, ent)
      else if k = ''no-cache'' then
        (case ParseBool value of
           None \<Rightarrow> Inl (InvalidBoolean value ''no-cache'')
         | Some noCache \<Rightarrow> Inr (t \<lparr> NoCache := Some noCache \<rparr>, ent))
      else if k = ''no-cache-filter'' then Inr (t \<lparr> NoCacheFilter := ArrValue ov \<rparr>, ent)
      else if k = ''shm-size'' then Inr (t \<lparr> ShmSize := Some value \<rparr>, ent)
      else if k = ''ulimits'' then Inr (t \<lparr> Ulimits := ArrValue ov \<rparr>, ent)
      else if k = ''network'' then Inr (t \<lparr> NetworkMode := Some value \<rparr>, ent)
      else if k = ''pull'' then
        (case ParseBool value of
           None \<Rightarrow> Inl (InvalidBoolean value ''pull'')
         | Some pull \<Rightarrow> Inr (t \<lparr> Pull := Some pull \<rparr>, ent))
      else if k = ''push'' then
        (case ParseBool value of
           None \<Rightarrow> Inl (InvalidBoolean value ''push'')
         | Some push \<Rightarrow> Inr (t \<lparr> Outputs := setPushOverride x (Outputs t) push \<rparr>, ent))
      else if k = ''load'' then
        (case ParseBool value of
           None \<Rightarrow> Inl (InvalidBoolean value ''load'')
         | Some load \<Rightarrow> Inr (t \<lparr> Outputs := setLoadOverride x (Outputs t) load \<rparr>, ent))
      else Inl (UnknownKey k))"

fun AddOverrides :: "ext \<Rightarrow> Target \<Rightarrow> (string \<times> Override) list \<Rightarrow> EntitlementConf \<Rightarrow>
    error + Target \<times> EntitlementConf" where
  "AddOverrides x t [] ent = Inr (t, ent)"
| "AddOverrides x t ((key, ov) # overrides) ent =
     (case addOverride x key ov t ent of
        Inl e \<Rightarrow> Inl e
      | Inr (t', ent') \<Rightarrow> AddOverrides x t' overrides ent')"

text \<open>\<open>Config.newOverrides\<close>.  The table maps a target name to a map from the override
  key (the text after the first dot) to an \<open>Override\<close>.  \<open>newOverride_name\<close> is the body of
  the loop over the expanded names: the map of the name is created when it is missing, the
  entry is read, changed by the switch and stored back; \<open>continue\<close> leaves without the
  store.  The \<open>fallthrough\<close> of the \<open>args\<close> case runs the \<open>contexts\<close> case, whose length check
  has then passed already, and the default case.\<close>

type_synonym overrides = "(string \<times> (string \<times> Override) list) list"

definition arrayKeys :: "string list" where
  "arrayKeys = [''output'', ''cache-to'', ''cache-from'', ''tags'', ''platform'', ''secrets'',
     ''ssh'', ''attest'', ''entitlements'', ''network'']"

definition newOverride_name :: "ext \<Rightarrow> string list \<Rightarrow> string list \<Rightarrow> string \<Rightarrow> string \<Rightarrow>
    overrides \<Rightarrow> error + overrides" where
  "newOverride_name x parts keys kk1 name m =
     (let t = entries (map_of m name);
          m1 = (if map_of m name = None then AList.update name [] m else m);
          ov = (case map_of t kk1 of None \<Rightarrow> \<lparr> Value = [], ArrValue = None \<rparr> | Some ov \<Rightarrow> ov);
          store = (\<lambda>ov. Inr (AList.update name (AList.update kk1 ov t) m1));
          dflt = (\<lambda>ov. store (if length parts = 2 then ov \<lparr> Value := parts ! 1 \<rparr> else ov))
      in if keys ! 1 \<in> set arrayKeys then
           store (if length parts = 2 then ov \<lparr> ArrValue := append (ArrValue ov) [parts ! 1] \<rparr>
                  else ov)
         else if keys ! 1 = ''args'' then
           (if length keys \<noteq> 3 then Inl (ArgsRequiresName (parts ! 0))
            else if length parts < 2 then
              (case LookupEnv x (keys ! 2) of
                 None \<Rightarrow> Inr m1
               | Some v \<Rightarrow> dflt (ov \<lparr> Value := v \<rparr>))
            else dflt ov)
         else if keys ! 1 = ''contexts'' then
           (if length keys \<noteq> 3 then Inl (ContextsRequiresName (parts ! 0)) else dflt ov)
         else dflt ov)"

fun newOverride_names :: "ext \<Rightarrow> string list \<Rightarrow> string list \<Rightarrow> string \<Rightarrow> string list \<Rightarrow>
    overrides \<Rightarrow> error + overrides" where
  "newOverride_names x parts keys kk1 [] m = Inr m"
| "newOverride_names x parts keys kk1 (name # names) m =
     (case newOverride_name x parts keys kk1 name m of
        Inl e \<Rightarrow> Inl e
      | Inr m' \<Rightarrow> newOverride_names x parts keys kk1 names m')"

definition newOverride :: "ext \<Rightarrow> Config \<Rightarrow> string \<Rightarrow> overrides \<Rightarrow> error + overrides" where
  "newOverride x c v m =
     (let parts = SplitN v (CHR ''='') 2; keys = SplitN (parts ! 0) (CHR ''.'') 3 in
      if length keys < 2 then Inl (InvalidOverrideKey (parts ! 0))
      else if length parts \<noteq> 2 \<and> keys ! 1 \<noteq> ''args'' then Inl (InvalidOverride v)
      else case expandTargets x c (keys ! 0) of
             Inl e \<Rightarrow> Inl e
           | Inr names \<Rightarrow>
               newOverride_names x parts keys (SplitN (parts ! 0) (CHR ''.'') 2 ! 1) names m)"

fun newOverrides_loop :: "ext \<Rightarrow> Config \<Rightarrow> string list \<Rightarrow> overrides \<Rightarrow> error + overrides" where
  "newOverrides_loop x c [] m = Inr m"
| "newOverrides_loop x c (v # vs) m =
     (case newOverride x c v m of Inl e \<Rightarrow> Inl e | Inr m' \<Rightarrow> newOverrides_loop x c vs m')"

definition newOverrides :: "ext \<Rightarrow> Config \<Rightarrow> string list \<Rightarrow> error + overrides" where
  "newOverrides x c v = newOverrides_loop x c v []"

section \<open>Inheritance\<close>

text \<open>
  \<open>Config.target\<close>.  \<open>visited\<close> maps a name to the resolved target, or to the nil pointer
  while the name is being resolved; a nil pointer read from it is returned to the caller,
  which skips it.  \<open>target_inherits\<close> is the loop over \<open>t.Inherits\<close>, merging every parent
  into \<open>tt\<close>.  The recursion is on a fuel counter for the depth of nested calls; \<open>None\<close>
  means the fuel ran out.  After an error the callers return at once, so no state is
  returned with it.
\<close>

fun target :: "nat \<Rightarrow> ext \<Rightarrow> Config \<Rightarrow> string \<Rightarrow> (string \<rightharpoonup> Target option) \<Rightarrow> overrides \<Rightarrow>
      EntitlementConf \<Rightarrow>
      (error + Target option \<times> (string \<rightharpoonup> Target option) \<times> EntitlementConf) option"
  and target_inherits :: "nat \<Rightarrow> ext \<Rightarrow> Config \<Rightarrow> string list \<Rightarrow> Target \<Rightarrow>
      (string \<rightharpoonup> Target option) \<Rightarrow> overrides \<Rightarrow> EntitlementConf \<Rightarrow>
      (error + Target \<times> (string \<rightharpoonup> Target option) \<times> EntitlementConf) option" where
  "target 0 x c name visited overrides ent = None"
| "target (Suc n) x c name visited overrides ent =
     (case visited name of
        Some t \<Rightarrow> Some (Inr (t, visited, ent))
      | None \<Rightarrow>
         (case find (\<lambda>t. Target.Name t = name) (Targets c) of
            None \<Rightarrow> Some (Inl (FailedToFindTarget name))
          | Some t \<Rightarrow>
             (case target_inherits n x c (elems (Inherits t)) defaultTarget
                     (visited(name \<mapsto> None)) overrides ent of
                None \<Rightarrow> None
              | Some (Inl e) \<Rightarrow> Some (Inl e)
              | Some (Inr (tt, visited', ent')) \<Rightarrow>
                 (case AddOverrides x (Merge x (Merge x defaultTarget tt) t)
                         (entries (map_of overrides name)) ent' of
                    Inl e \<Rightarrow> Some (Inl e)
                  | Inr (tt', ent'') \<Rightarrow>
                      Some (Inr (Some (normalize x tt'),
                                 visited'(name \<mapsto> Some (normalize x tt')), ent''))))))"
| "target_inherits n x c [] tt visited overrides ent = Some (Inr (tt, visited, ent))"
| "target_inherits n x c (name # names) tt visited overrides ent =
     (case target n x c name visited overrides ent of
        None \<Rightarrow> None
      | Some (Inl e) \<Rightarrow> Some (Inl e)
      | Some (Inr (t, visited', ent')) \<Rightarrow>
          target_inherits n x c names (case t of None \<Rightarrow> tt | Some t \<Rightarrow> Merge x tt t)
            visited' overrides ent')"

text \<open>\<open>Config.ResolveTarget\<close> starts from an empty \<open>visited\<close> map, with one more unit of
  fuel than there are targets (enough, see \<open>target_fuel\<close>).  The source dereferences the
  result of \<open>target\<close> without a nil check.\<close>

definition ResolveTarget :: "ext \<Rightarrow> Config \<Rightarrow> string \<Rightarrow> overrides \<Rightarrow> EntitlementConf \<Rightarrow>
    (error + Target \<times> EntitlementConf) option" where
  "ResolveTarget x c name overrides ent =
     (case target (Suc (length (Targets c))) x c name Map.empty overrides ent of
        None \<Rightarrow> None
      | Some (Inl e) \<Rightarrow> Some (Inl e)
      | Some (Inr (None, visited, ent')) \<Rightarrow> Some (Inl NilDereference)
      | Some (Inr (Some t, visited, ent')) \<Rightarrow>
          Some (Inr (t \<lparr> Inherits := None,
                        Context := (if Context t = None then Some ''.'' else Context t),
                        Dockerfile :=
                          (if Dockerfile t = None then Some ''Dockerfile'' else Dockerfile t) \<rparr>,
                     ent')))"

definition ent0 :: EntitlementConf where
  "ent0 = \<lparr> NetworkHost = False, SecurityInsecure = False, FSRead = [], FSWrite = [] \<rparr>"

definition c_net :: Config where
  "c_net = \<lparr> Groups = [],
     Targets = [named ''base'' \<lparr> NetworkMode := Some ''host'',
                                Entitlements := Some [''network.host''] \<rparr>,
                named ''app'' \<lparr> Inherits := Some [''base''],
                               Entitlements := Some [''network.host'', ''security.insecure''] \<rparr>] \<rparr>"

definition gnames :: "Config \<Rightarrow> string set" where
  "gnames c = set (map Group.Name (Groups c))"

definition tnames :: "Config \<Rightarrow> string set" where
  "tnames c = set (map Target.Name (Targets c))"

definition c_tagged :: Config where
  "c_tagged = \<lparr> Groups = [],
     Targets = [named ''web'' \<lparr> Tags := Some [''foo:old''], Context := Some ''./src'' \<rparr>] \<rparr>"

definition tags_overrides :: "string list" where
  "tags_overrides = [''web.tags=foo:latest'', ''web.tags=foo:dev'']"

definition context_overrides :: "string list" where
  "context_overrides = [''web.context=./app'', ''web.context=./other'']"

section \<open>Properties of override patterns\<close>





section \<open>Termination of group expansion\<close>

lemma find_group_name: "find (\<lambda>g. Group.Name g = name) (Groups c) = Some g \<Longrightarrow> name \<in> gnames c"
  by (auto simp: gnames_def find_Some_iff)

lemma card_unvisited_less:
  assumes "name \<in> gnames c" "name \<notin> dom V"
  shows "card (gnames c - dom (V(name \<mapsto> v))) < card (gnames c - dom V)"
proof -
  have fin: "finite (gnames c - dom V)" by (simp add: gnames_def)
  have eq: "gnames c - dom (V(name \<mapsto> v)) = (gnames c - dom V) - {name}" by auto
  have "name \<in> gnames c - dom V" using assms by simp
  from card_Diff1_less [OF fin this] show ?thesis unfolding eq .
qed

lemma card_unvisited_mono:
  "dom V \<subseteq> dom V' \<Longrightarrow> card (gnames c - dom V') \<le> card (gnames c - dom V)"
  by (rule card_mono) (auto simp: gnames_def)

lemma members_fuel:
  assumes g: "\<And>name V. card (gnames c - dom V) < n \<Longrightarrow>
      \<exists>r V'. group n c name V = Some (r, V') \<and> dom V \<subseteq> dom V'"
  shows "card (gnames c - dom V) < n \<Longrightarrow>
      \<exists>r V'. group_members n c ts targets groups V = Some (r, V') \<and> dom V \<subseteq> dom V'"
proof (induction ts arbitrary: targets groups V)
  case Nil
  then show ?case by simp
next
  case (Cons t ts)
  from g [OF Cons.prems] obtain tt tg V1 where
    1: "group n c t V = Some ((tt, tg), V1)" and d1: "dom V \<subseteq> dom V1" by force
  from card_unvisited_mono [OF d1, of c] Cons.prems
  have "card (gnames c - dom V1) < n" by simp
  from Cons.IH [OF this] obtain r V2 where
    2: "group_members n c ts
          (if length tt > 0 then targets @ tt else targets @ [t])
          (if length tg > 0 then groups @ tg else groups) V1 = Some (r, V2)"
    and d2: "dom V1 \<subseteq> dom V2" by blast
  from 1 2 d1 d2 show ?case by auto
qed

lemma group_fuel:
  "card (gnames c - dom V) < n \<Longrightarrow>
     \<exists>r V'. group n c name V = Some (r, V') \<and> dom V \<subseteq> dom V'"
proof (induction n arbitrary: name V)
  case 0
  then show ?case by simp
next
  case (Suc n)
  show ?case
  proof (cases "V name")
    case (Some v)
    then show ?thesis by auto
  next
    case None
    show ?thesis
    proof (cases "find (\<lambda>g. Group.Name g = name) (Groups c)")
      case fNone: None
      with None show ?thesis by auto
    next
      case (Some g)
      from None have nd: "name \<notin> dom V" by auto
      from card_unvisited_less [OF find_group_name [OF Some] nd, of "([], [])"] Suc.prems
      have lt: "card (gnames c - dom (V(name \<mapsto> ([], [])))) < n" by simp
      from members_fuel [of c n, OF Suc.IH lt]
      obtain r V' where m: "group_members n c (elems (Group.Targets g)) [] [name]
          (V(name \<mapsto> ([], []))) = Some (r, V')" and d: "dom (V(name \<mapsto> ([], []))) \<subseteq> dom V'"
        by blast
      obtain a b where r: "r = (a, b)" by (cases r)
      from None Some m r d show ?thesis by auto
    qed
  qed
qed
lemma members_mono:
  assumes g: "\<And>name V r. group n c name V = Some r \<Longrightarrow> group (Suc n) c name V = Some r"
  shows "group_members n c ts targets groups V = Some r \<Longrightarrow>
         group_members (Suc n) c ts targets groups V = Some r"
proof (induction ts arbitrary: targets groups V)
  case Nil
  then show ?case by simp
next
  case (Cons t ts)
  from Cons.prems obtain tt tg V1 where 1: "group n c t V = Some ((tt, tg), V1)"
    by (auto split: option.splits)
  from Cons.prems 1 have "group_members n c ts
      (if length tt > 0 then targets @ tt else targets @ [t])
      (if length tg > 0 then groups @ tg else groups) V1 = Some r" by simp
  from Cons.IH [OF this] g [OF 1] show ?case by simp
qed

lemma group_mono: "group n c name V = Some r \<Longrightarrow> group (Suc n) c name V = Some r"
proof (induction n arbitrary: name V r)
  case 0
  then show ?case by simp
next
  case (Suc n)
  show ?case
  proof (cases "V name")
    case (Some v)
    with Suc.prems show ?thesis by simp
  next
    case None
    show ?thesis
    proof (cases "find (\<lambda>g. Group.Name g = name) (Groups c)")
      case fNone: None
      with None Suc.prems show ?thesis by simp
    next
      case (Some g)
      from Suc.prems None Some obtain tg gg V' where
        m: "group_members n c (elems (Group.Targets g)) [] [name] (V(name \<mapsto> ([], []))) =
              Some ((tg, gg), V')"
        by (auto split: option.splits)
      from members_mono [of n c, OF Suc.IH m]
      have "group_members (Suc n) c (elems (Group.Targets g)) [] [name] (V(name \<mapsto> ([], []))) =
              Some ((tg, gg), V')" .
      with Suc.prems None Some m show ?thesis by simp
    qed
  qed
qed

lemma group_mono_le: "n \<le> m \<Longrightarrow> group n c name V = Some r \<Longrightarrow> group m c name V = Some r"
proof (induction m)
  case 0
  then show ?case by simp
next
  case (Suc m)
  show ?case
  proof (cases "n = Suc m")
    case True
    with Suc.prems show ?thesis by simp
  next
    case False
    with Suc.prems have "n \<le> m" by simp
    from group_mono [OF Suc.IH [OF this Suc.prems(2)]] show ?thesis .
  qed
qed

lemma card_gnames: "card (gnames c - dom (Map.empty :: string \<rightharpoonup> visit)) < Suc (length (Groups c))"
proof -
  have "card (gnames c) \<le> length (Groups c)"
    unfolding gnames_def using card_length [of "map Group.Name (Groups c)"] by simp
  then show ?thesis by simp
qed

text \<open>
  C9.  \<open>ResolveGroup\<close> returns for every document and every name, also when groups
  contain themselves directly or through other groups: the fuel it is given is never
  used up.  The result does not depend on the fuel, so that it is a function of the
  document and the name alone and a second call returns the same lists.
\<close>

theorem ResolveGroup_terminates:
  "(\<exists>targets groups. ResolveGroup c name = Some (targets, groups)) \<and>
   (\<forall>n. Suc (length (Groups c)) \<le> n \<longrightarrow>
      group n c name Map.empty = group (Suc (length (Groups c))) c name Map.empty \<and>
      group n c name Map.empty \<noteq> None)"
proof -
  from group_fuel [OF card_gnames, of c name] obtain r V' where
    g: "group (Suc (length (Groups c))) c name Map.empty = Some (r, V')" by blast
  obtain a b where r: "r = (a, b)" by (cases r)
  from g r have 1: "\<exists>targets groups. ResolveGroup c name = Some (targets, groups)"
    by (simp add: ResolveGroup_def)
  have 2: "\<forall>n. Suc (length (Groups c)) \<le> n \<longrightarrow>
      group n c name Map.empty = group (Suc (length (Groups c))) c name Map.empty \<and>
      group n c name Map.empty \<noteq> None"
    using group_mono_le [OF _ g] g by auto
  from 1 2 show ?thesis by blast
qed

lemma group_c_cycle:
  "group 3 c_cycle ''G'' Map.empty =
     Some (([''G'', ''app''], [''G'', ''H'']),
       [''H'' \<mapsto> ([''G''], [''H'']), ''G'' \<mapsto> ([''G'', ''app''], [''G'', ''H''])])"
  by (simp add: c_cycle_def grp_def elems_def numeral_3_eq_3 fun_upd_twist)

theorem ResolveGroup_terminates_witness:
  "ResolveGroup c_cycle ''G'' = Some ([''G'', ''app''], [''G'', ''H'']) \<and>
   group 7 c_cycle ''G'' Map.empty = group 3 c_cycle ''G'' Map.empty"
proof -
  have l: "Suc (length (Groups c_cycle)) = 3" by (simp add: c_cycle_def)
  have "Suc (length (Groups c_cycle)) \<le> 7" by (simp add: c_cycle_def)
  with ResolveGroup_terminates [of c_cycle "''G''"]
  have "group 7 c_cycle ''G'' Map.empty =
      group (Suc (length (Groups c_cycle))) c_cycle ''G'' Map.empty" by blast
  with l have a: "group 7 c_cycle ''G'' Map.empty = group 3 c_cycle ''G'' Map.empty" by simp
  have b: "ResolveGroup c_cycle ''G'' = Some ([''G'', ''app''], [''G'', ''H''])"
    unfolding ResolveGroup_def l group_c_cycle by (simp add: dedupSlice_def)
  from a b show ?thesis by simp
qed

section \<open>Resolution of a target\<close>

lemma target_fresh:
  assumes "target (Suc n) x c name V ovs ent = Some (Inr (r, V', ent'))" "V name = None"
  shows "\<exists>t tt V1 ent1 tt'.
      find (\<lambda>t. Target.Name t = name) (Targets c) = Some t \<and>
      target_inherits n x c (elems (Inherits t)) defaultTarget (V(name \<mapsto> None)) ovs ent =
        Some (Inr (tt, V1, ent1)) \<and>
      AddOverrides x (Merge x (Merge x defaultTarget tt) t) (entries (map_of ovs name)) ent1 =
        Inr (tt', ent') \<and>
      r = Some (normalize x tt') \<and> V' = V1(name \<mapsto> Some (normalize x tt'))"
  using assms by (auto split: option.splits sum.splits)

lemma ResolveTarget_result:
  assumes "ResolveTarget x c name ovs ent = Some (Inr (r, ent'))"
  shows "\<exists>t tt tt' ent1.
      find (\<lambda>t. Target.Name t = name) (Targets c) = Some t \<and>
      AddOverrides x (Merge x (Merge x defaultTarget tt) t) (entries (map_of ovs name)) ent1 =
        Inr (tt', ent') \<and>
      r = (normalize x tt') \<lparr> Inherits := None,
            Context := (if Context (normalize x tt') = None then Some ''.''
                        else Context (normalize x tt')),
            Dockerfile := (if Dockerfile (normalize x tt') = None then Some ''Dockerfile''
                           else Dockerfile (normalize x tt')) \<rparr>"
proof -
  from assms obtain t0 V' where
    t: "target (Suc (length (Targets c))) x c name Map.empty ovs ent = Some (Inr (Some t0, V', ent'))"
    and r: "r = t0 \<lparr> Inherits := None,
            Context := (if Context t0 = None then Some ''.'' else Context t0),
            Dockerfile := (if Dockerfile t0 = None then Some ''Dockerfile'' else Dockerfile t0) \<rparr>"
    by (auto simp: ResolveTarget_def split: option.splits sum.splits)
  from target_fresh [OF t] obtain td tt V1 ent1 tt' where
    f: "find (\<lambda>t. Target.Name t = name) (Targets c) = Some td"
    and a: "AddOverrides x (Merge x (Merge x defaultTarget tt) td) (entries (map_of ovs name)) ent1 =
        Inr (tt', ent')"
    and n: "Some t0 = Some (normalize x tt')" by auto
  from n have t0: "t0 = normalize x tt'" by simp
  show ?thesis
    apply (rule exI [of _ td], rule exI [of _ tt], rule exI [of _ tt'], rule exI [of _ ent1])
    using f a r unfolding t0 by simp
qed



section \<open>Normalization\<close>

lemma removeDupes_loop_distinct: "distinct res \<Longrightarrow> distinct (removeDupes_loop xs res)"
  by (induction xs arbitrary: res) auto

lemma removeDupes_loop_set: "set (removeDupes_loop xs res) = set res \<union> (set xs - {[]})"
  by (induction xs arbitrary: res) auto

lemma count_list_distinct: "distinct xs \<Longrightarrow> v \<in> set xs \<Longrightarrow> count_list xs v = 1"
  by (induction xs) auto

lemma normalize_network_host:
  assumes "NetworkMode t = Some ''host''"
  shows "count_list (elems (Entitlements (normalize x t))) ''network.host'' = 1"
proof -
  have e: "elems (Entitlements (normalize x t)) =
      removeDupes_loop (elems (Entitlements t) @ [''network.host'']) []"
    using assms by (simp add: normalize_def removeDupes_def append_def elems_def)
  show ?thesis unfolding e
    by (rule count_list_distinct) (simp_all add: removeDupes_loop_distinct removeDupes_loop_set)
qed

text \<open>
  C4.  A target returned by \<open>ResolveTarget\<close> whose network mode is \<open>host\<close> carries the
  entitlement \<open>network.host\<close> exactly once, however often it was declared, inherited or
  added by an override: \<open>normalize\<close> appends it and removes the duplicates as its last
  change to the entitlements, after the overrides were applied.
\<close>

theorem network_host_entitlement:
  assumes "ResolveTarget x c name ovs ent = Some (Inr (r, ent'))"
    and "NetworkMode r = Some ''host''"
  shows "count_list (elems (Entitlements r)) ''network.host'' = 1"
proof -
  from ResolveTarget_result [OF assms(1)] obtain tt' where
    r: "r = (normalize x tt') \<lparr> Inherits := None,
            Context := (if Context (normalize x tt') = None then Some ''.''
                        else Context (normalize x tt')),
            Dockerfile := (if Dockerfile (normalize x tt') = None then Some ''Dockerfile''
                           else Dockerfile (normalize x tt')) \<rparr>" by blast
  from assms(2) have "NetworkMode tt' = Some ''host''"
    unfolding r by (simp add: normalize_def)
  from normalize_network_host [OF this, of x] show ?thesis
    unfolding r by simp
qed

lemma ResolveTarget_app:
  "ResolveTarget ext0 c_net ''app'' [] ent0 =
     Some (Inr (defaultTarget \<lparr> Attest := Some [], Context := Some ''.'',
                   Dockerfile := Some ''Dockerfile'', NetworkMode := Some ''host'',
                   Entitlements := Some [''network.host'', ''security.insecure''] \<rparr>, ent0))"
  by (simp add: ResolveTarget_def c_net_def named_def defaultTarget_def Merge_def
      normalize_def elems_def entries_def removeDupes_def removeAttestDupes_def append_def)

theorem network_host_entitlement_witness:
  "\<exists>r e. ResolveTarget ext0 c_net ''app'' [] ent0 = Some (Inr (r, e)) \<and>
     NetworkMode r = Some ''host'' \<and>
     Entitlements r = Some [''network.host'', ''security.insecure''] \<and>
     count_list (elems (Entitlements r)) ''network.host'' = 1"
proof -
  let ?r = "defaultTarget \<lparr> Attest := Some [], Context := Some ''.'',
              Dockerfile := Some ''Dockerfile'', NetworkMode := Some ''host'',
              Entitlements := Some [''network.host'', ''security.insecure''] \<rparr>"
  have n: "NetworkMode ?r = Some ''host''" by simp
  from network_host_entitlement [OF ResolveTarget_app n]
  have "count_list (elems (Entitlements ?r)) ''network.host'' = 1" .
  moreover have "Entitlements ?r = Some [''network.host'', ''security.insecure'']" by simp
  ultimately show ?thesis using ResolveTarget_app n by blast
qed

section \<open>Termination of inheritance\<close>

lemma find_target_name:
  "find (\<lambda>t. Target.Name t = name) (Targets c) = Some t \<Longrightarrow> name \<in> tnames c"
  by (auto simp: tnames_def find_Some_iff)

lemma card_unresolved_less:
  assumes "name \<in> tnames c" "name \<notin> dom V"
  shows "card (tnames c - dom (V(name \<mapsto> v))) < card (tnames c - dom V)"
proof -
  have fin: "finite (tnames c - dom V)" by (simp add: tnames_def)
  have eq: "tnames c - dom (V(name \<mapsto> v)) = (tnames c - dom V) - {name}" by auto
  have "name \<in> tnames c - dom V" using assms by simp
  from card_Diff1_less [OF fin this] show ?thesis unfolding eq .
qed

lemma card_unresolved_mono:
  "dom V \<subseteq> dom V' \<Longrightarrow> card (tnames c - dom V') \<le> card (tnames c - dom V)"
  by (rule card_mono) (auto simp: tnames_def)

lemma inherits_fuel:
  assumes g: "\<And>name V ent. card (tnames c - dom V) < n \<Longrightarrow>
      \<exists>res. target n x c name V ovs ent = Some res \<and>
        (\<forall>r V' e. res = Inr (r, V', e) \<longrightarrow> dom V \<subseteq> dom V')"
  shows "card (tnames c - dom V) < n \<Longrightarrow>
      \<exists>res. target_inherits n x c names tt V ovs ent = Some res \<and>
        (\<forall>r V' e. res = Inr (r, V', e) \<longrightarrow> dom V \<subseteq> dom V')"
proof (induction names arbitrary: tt V ent)
  case Nil
  then show ?case by simp
next
  case (Cons name names)
  from g [OF Cons.prems, of name ent] obtain res where
    1: "target n x c name V ovs ent = Some res"
    and d1: "\<forall>r V' e. res = Inr (r, V', e) \<longrightarrow> dom V \<subseteq> dom V'" by blast
  show ?case
  proof (cases res)
    case (Inl e)
    with 1 show ?thesis by simp
  next
    case (Inr p)
    obtain t V1 ent1 where p: "p = (t, V1, ent1)" by (cases p)
    from d1 Inr p have s1: "dom V \<subseteq> dom V1" by simp
    from card_unresolved_mono [OF s1, of c] Cons.prems
    have "card (tnames c - dom V1) < n" by simp
    from Cons.IH [OF this, of "case t of None \<Rightarrow> tt | Some t \<Rightarrow> Merge x tt t" ent1]
    obtain res2 where
      2: "target_inherits n x c names (case t of None \<Rightarrow> tt | Some t \<Rightarrow> Merge x tt t) V1 ovs ent1 =
            Some res2"
      and d2: "\<forall>r V' e. res2 = Inr (r, V', e) \<longrightarrow> dom V1 \<subseteq> dom V'" by blast
    from 1 Inr p 2 have 3: "target_inherits n x c (name # names) tt V ovs ent = Some res2" by simp
    from d2 s1 have "\<forall>r V' e. res2 = Inr (r, V', e) \<longrightarrow> dom V \<subseteq> dom V'" by blast
    with 3 show ?thesis by blast
  qed
qed

lemma target_fuel:
  "card (tnames c - dom V) < n \<Longrightarrow>
     \<exists>res. target n x c name V ovs ent = Some res \<and>
       (\<forall>r V' e. res = Inr (r, V', e) \<longrightarrow> dom V \<subseteq> dom V')"
proof (induction n arbitrary: name V ent)
  case 0
  then show ?case by simp
next
  case (Suc n)
  show ?case
  proof (cases "V name")
    case (Some v)
    then show ?thesis by auto
  next
    case None
    show ?thesis
    proof (cases "find (\<lambda>t. Target.Name t = name) (Targets c)")
      case fNone: None
      with None show ?thesis by auto
    next
      case (Some t)
      from None have nd: "name \<notin> dom V" by auto
      from card_unresolved_less [OF find_target_name [OF Some] nd, of None] Suc.prems
      have lt: "card (tnames c - dom (V(name \<mapsto> None))) < n" by simp
      from inherits_fuel [of c n x ovs, OF Suc.IH lt, of "elems (Inherits t)" defaultTarget ent]
      obtain res where
        m: "target_inherits n x c (elems (Inherits t)) defaultTarget (V(name \<mapsto> None)) ovs ent =
              Some res"
        and d: "\<forall>r V' e. res = Inr (r, V', e) \<longrightarrow> dom (V(name \<mapsto> None)) \<subseteq> dom V'" by blast
      show ?thesis
      proof (cases res)
        case (Inl e)
        with None Some m show ?thesis by simp
      next
        case (Inr p)
        obtain tt V1 ent1 where p: "p = (tt, V1, ent1)" by (cases p)
        from d Inr p have s: "dom V \<subseteq> dom V1" by auto
        show ?thesis
        proof (cases "AddOverrides x (Merge x (Merge x defaultTarget tt) t)
                        (entries (map_of ovs name)) ent1")
          case aInl: (Inl e)
          with None Some m Inr p show ?thesis by simp
        next
          case aInr: (Inr q)
          obtain tt' ent2 where q: "q = (tt', ent2)" by (cases q)
          from None Some m Inr p aInr q s show ?thesis by auto
        qed
      qed
    qed
  qed
qed

lemma card_tnames:
  "card (tnames c - dom (Map.empty :: string \<rightharpoonup> Target option)) < Suc (length (Targets c))"
proof -
  have "card (tnames c) \<le> length (Targets c)"
    unfolding tnames_def using card_length [of "map Target.Name (Targets c)"] by simp
  then show ?thesis by simp
qed

lemma ResolveTarget_returns: "\<exists>res. ResolveTarget x c name ovs ent = Some res"
proof -
  from target_fuel [OF card_tnames, of c x name ovs ent] obtain res where
    "target (Suc (length (Targets c))) x c name Map.empty ovs ent = Some res" by blast
  then show ?thesis
    unfolding ResolveTarget_def by (auto split: sum.splits option.splits)
qed

section \<open>Overrides given more than once\<close>

lemma expandTargets_exact:
  "\<exists>t \<in> set (Targets c). Target.Name t = p \<Longrightarrow> expandTargets x c p = Inr [p]"
  by (simp add: expandTargets_def)

lemma SplitN_2:
  "SplitN s sep 2 =
     (if sep \<in> set s
      then [takeWhile (\<lambda>ch. ch \<noteq> sep) s, tl (dropWhile (\<lambda>ch. ch \<noteq> sep) s)] else [s])"
  by (simp add: numeral_2_eq_2)

lemma SplitN_3:
  "SplitN s sep 3 =
     (if sep \<in> set s
      then takeWhile (\<lambda>ch. ch \<noteq> sep) s # SplitN (tl (dropWhile (\<lambda>ch. ch \<noteq> sep) s)) sep 2
      else [s])"
  by (simp add: numeral_3_eq_3 numeral_2_eq_2)

lemma newOverrides_tags:
  assumes "\<exists>t \<in> set (Targets c). Target.Name t = ''web''"
  shows "newOverrides x c tags_overrides =
     Inr [(''web'', [(''tags'', \<lparr> Value = [], ArrValue = Some [''foo:latest'', ''foo:dev''] \<rparr>)])]"
  by (simp add: tags_overrides_def newOverrides_def newOverride_def newOverride_name_def
      expandTargets_exact [OF assms] arrayKeys_def append_def elems_def entries_def
      SplitN_2 SplitN_3 Let_def)

lemma newOverrides_context:
  assumes "\<exists>t \<in> set (Targets c). Target.Name t = ''web''"
  shows "newOverrides x c context_overrides =
     Inr [(''web'', [(''context'', \<lparr> Value = ''./other'', ArrValue = None \<rparr>)])]"
  by (simp add: context_overrides_def newOverrides_def newOverride_def newOverride_name_def
      expandTargets_exact [OF assms] arrayKeys_def append_def elems_def entries_def
      SplitN_2 SplitN_3 Let_def)

lemma ResolveTarget_tags:
  assumes "ResolveTarget x c ''web''
      [(''web'', [(''tags'', \<lparr> Value = [], ArrValue = Some [''foo:latest'', ''foo:dev''] \<rparr>)])] ent =
        Some (Inr (r, ent'))"
  shows "Tags r = Some [''foo:latest'', ''foo:dev'']"
proof -
  from ResolveTarget_result [OF assms] obtain t tt tt' ent1 where
    a: "AddOverrides x (Merge x (Merge x defaultTarget tt) t)
          (entries (map_of [(''web'', [(''tags'',
             \<lparr> Value = [], ArrValue = Some [''foo:latest'', ''foo:dev''] \<rparr>)])] ''web'')) ent1 =
        Inr (tt', ent')"
    and r: "r = (normalize x tt') \<lparr> Inherits := None,
            Context := (if Context (normalize x tt') = None then Some ''.''
                        else Context (normalize x tt')),
            Dockerfile := (if Dockerfile (normalize x tt') = None then Some ''Dockerfile''
                           else Dockerfile (normalize x tt')) \<rparr>" by blast
  from a have "Tags tt' = Some [''foo:latest'', ''foo:dev'']"
    by (auto simp: entries_def addOverride_def SplitN_2 Let_def)
  then show ?thesis unfolding r by (simp add: normalize_def removeDupes_def)
qed

lemma ResolveTarget_context:
  assumes "ResolveTarget x c ''web''
      [(''web'', [(''context'', \<lparr> Value = ''./other'', ArrValue = None \<rparr>)])] ent =
        Some (Inr (r, ent'))"
  shows "Context r = Some ''./other''"
proof -
  from ResolveTarget_result [OF assms] obtain t tt tt' ent1 where
    a: "AddOverrides x (Merge x (Merge x defaultTarget tt) t)
          (entries (map_of [(''web'', [(''context'',
             \<lparr> Value = ''./other'', ArrValue = None \<rparr>)])] ''web'')) ent1 =
        Inr (tt', ent')"
    and r: "r = (normalize x tt') \<lparr> Inherits := None,
            Context := (if Context (normalize x tt') = None then Some ''.''
                        else Context (normalize x tt')),
            Dockerfile := (if Dockerfile (normalize x tt') = None then Some ''Dockerfile''
                           else Dockerfile (normalize x tt')) \<rparr>" by blast
  from a have "Context tt' = Some ''./other''"
    by (auto simp: entries_def addOverride_def SplitN_2 Let_def)
  then show ?thesis unfolding r by (simp add: normalize_def)
qed

text \<open>
  C2.  In a document with a target named \<open>web\<close>, the overrides \<open>web.tags=foo:latest\<close> and
  \<open>web.tags=foo:dev\<close> are collected by \<open>newOverrides\<close> into one entry whose list holds both
  values in the order given, and every target that \<open>ResolveTarget\<close> returns for \<open>web\<close> with
  these overrides has exactly these two tags, whatever tags were declared or inherited.
  The overrides \<open>web.context=./app\<close> and \<open>web.context=./other\<close> are collected into one entry
  holding the last value, and the resolved context is \<open>./other\<close>.
\<close>

theorem override_accumulation:
  assumes "\<exists>t \<in> set (Targets c). Target.Name t = ''web''"
  shows "(\<exists>ovs. newOverrides x c tags_overrides = Inr ovs \<and>
            map_of ovs ''web'' =
              Some [(''tags'', \<lparr> Value = [], ArrValue = Some [''foo:latest'', ''foo:dev''] \<rparr>)] \<and>
            (\<forall>ent r ent'. ResolveTarget x c ''web'' ovs ent = Some (Inr (r, ent')) \<longrightarrow>
               Tags r = Some [''foo:latest'', ''foo:dev''])) \<and>
         (\<exists>ovs. newOverrides x c context_overrides = Inr ovs \<and>
            map_of ovs ''web'' = Some [(''context'', \<lparr> Value = ''./other'', ArrValue = None \<rparr>)] \<and>
            (\<forall>ent r ent'. ResolveTarget x c ''web'' ovs ent = Some (Inr (r, ent')) \<longrightarrow>
               Context r = Some ''./other''))"
  unfolding newOverrides_tags [OF assms] newOverrides_context [OF assms]
  using ResolveTarget_tags ResolveTarget_context by auto

lemma ResolveTarget_tagged:
  "ResolveTarget ext0 c_tagged ''web''
     [(''web'', [(''tags'', \<lparr> Value = [], ArrValue = Some [''foo:latest'', ''foo:dev''] \<rparr>)])] ent0 =
     Some (Inr (defaultTarget \<lparr> Attest := Some [], Context := Some ''./src'',
                   Dockerfile := Some ''Dockerfile'',
                   Tags := Some [''foo:latest'', ''foo:dev''] \<rparr>, ent0))"
  by (simp add: ResolveTarget_def c_tagged_def named_def defaultTarget_def Merge_def
      normalize_def elems_def entries_def removeDupes_def removeAttestDupes_def append_def
      addOverride_def SplitN_2 Let_def)

lemma ResolveTarget_contexted:
  "ResolveTarget ext0 c_tagged ''web''
     [(''web'', [(''context'', \<lparr> Value = ''./other'', ArrValue = None \<rparr>)])] ent0 =
     Some (Inr (defaultTarget \<lparr> Attest := Some [], Context := Some ''./other'',
                   Dockerfile := Some ''Dockerfile'', Tags := Some [''foo:old''] \<rparr>, ent0))"
  by (simp add: ResolveTarget_def c_tagged_def named_def defaultTarget_def Merge_def
      normalize_def elems_def entries_def removeDupes_def removeAttestDupes_def append_def
      addOverride_def SplitN_2 Let_def)

theorem override_accumulation_witness:
  "(\<exists>t \<in> set (Targets c_tagged). Target.Name t = ''web'') \<and>
   (\<exists>ovs r e. newOverrides ext0 c_tagged tags_overrides = Inr ovs \<and>
      ResolveTarget ext0 c_tagged ''web'' ovs ent0 = Some (Inr (r, e)) \<and>
      Tags r = Some [''foo:latest'', ''foo:dev'']) \<and>
   (\<exists>ovs r e. newOverrides ext0 c_tagged context_overrides = Inr ovs \<and>
      ResolveTarget ext0 c_tagged ''web'' ovs ent0 = Some (Inr (r, e)) \<and>
      Context r = Some ''./other'')"
proof -
  have h: "\<exists>t \<in> set (Targets c_tagged). Target.Name t = ''web''"
    by (simp add: c_tagged_def named_def)
  from override_accumulation [OF h, of ext0] obtain ovs ovs' where
    1: "newOverrides ext0 c_tagged tags_overrides = Inr ovs"
    and 2: "\<forall>ent r ent'. ResolveTarget ext0 c_tagged ''web'' ovs ent = Some (Inr (r, ent')) \<longrightarrow>
               Tags r = Some [''foo:latest'', ''foo:dev'']"
    and 3: "newOverrides ext0 c_tagged context_overrides = Inr ovs'"
    and 4: "\<forall>ent r ent'. ResolveTarget ext0 c_tagged ''web'' ovs' ent = Some (Inr (r, ent')) \<longrightarrow>
               Context r = Some ''./other''" by blast
  from 1 newOverrides_tags [OF h, of ext0] have o: "ovs =
     [(''web'', [(''tags'', \<lparr> Value = [], ArrValue = Some [''foo:latest'', ''foo:dev''] \<rparr>)])]"
    by simp
  from 3 newOverrides_context [OF h, of ext0] have o': "ovs' =
     [(''web'', [(''context'', \<lparr> Value = ''./other'', ArrValue = None \<rparr>)])]" by simp
  from ResolveTarget_tagged 2 o have a: "\<exists>r e.
      ResolveTarget ext0 c_tagged ''web'' ovs ent0 = Some (Inr (r, e)) \<and>
      Tags r = Some [''foo:latest'', ''foo:dev'']" by blast
  from ResolveTarget_contexted 4 o' have b: "\<exists>r e.
      ResolveTarget ext0 c_tagged ''web'' ovs' ent0 = Some (Inr (r, e)) \<and>
      Context r = Some ''./other''" by blast
  from h 1 a 3 b show ?thesis by blast
qed

end
